theory Spec2Isabelle
  imports Complex_Main
begin

section \<open>JavaScript values as the page receives them\<close>

text \<open>
  The market page (\<^verbatim>\<open>src/app/page.tsx\<close>) works on values parsed from JSON and typed
  \<^verbatim>\<open>any\<close>. A JavaScript number is a finite value, one of the two infinities, or NaN. The
  code below only compares numbers and tests them for zero, never adds or multiplies
  them, so a finite double is represented by the rational it denotes (both zeros are the
  rational 0: they are equal and both falsy in JavaScript).
\<close>

datatype jsnum = Fin rat | PosInf | NegInf | NaN

text \<open>
  An object is the list of its own enumerable properties, each name once, in the order
  in which \<^verbatim>\<open>Object.values\<close> enumerates them. \<open>JUndefined\<close> is the value of a missing
  property.
\<close>

datatype json =
    JUndefined
  | JNull
  | JBool bool
  | JNum jsnum
  | JStr string
  | JArr "json list"
  | JObj "(string \<times> json) list"

datatype error = TypeError

definition bind_err :: "error + 'a \<Rightarrow> ('a \<Rightarrow> error + 'b) \<Rightarrow> error + 'b" where
  "bind_err r f = (case r of Inl e \<Rightarrow> Inl e | Inr v \<Rightarrow> f v)"

text \<open>Truthiness of a number: \<^verbatim>\<open>!n\<close> holds for 0 and NaN.\<close>

fun num_falsy :: "jsnum \<Rightarrow> bool" where
  "num_falsy (Fin r) = (r = 0)"
| "num_falsy NaN = True"
| "num_falsy PosInf = False"
| "num_falsy NegInf = False"

fun truthy :: "json \<Rightarrow> bool" where
  "truthy JUndefined = False"
| "truthy JNull = False"
| "truthy (JBool b) = b"
| "truthy (JNum n) = (\<not> num_falsy n)"
| "truthy (JStr s) = (s \<noteq> [])"
| "truthy (JArr xs) = True"
| "truthy (JObj ps) = True"

fun nullish :: "json \<Rightarrow> bool" where
  "nullish JUndefined = True"
| "nullish JNull = True"
| "nullish (JBool b) = False"
| "nullish (JNum n) = False"
| "nullish (JStr s) = False"
| "nullish (JArr xs) = False"
| "nullish (JObj ps) = False"

text \<open>
  Reading a property \<^verbatim>\<open>v.k\<close>. On \<^verbatim>\<open>null\<close> and \<^verbatim>\<open>undefined\<close> it throws a TypeError. On
  an object it is the property's value, \<^verbatim>\<open>undefined\<close> when the object has none. None of
  the names the page reads (\<^verbatim>\<open>items\<close>, \<^verbatim>\<open>itemID\<close>, \<^verbatim>\<open>itemId\<close>, \<^verbatim>\<open>item_id\<close>, \<^verbatim>\<open>listings\<close>,
  \<^verbatim>\<open>lastUploadTime\<close>, \<^verbatim>\<open>pricePerUnit\<close>, \<^verbatim>\<open>hq\<close>, \<^verbatim>\<open>worldName\<close>) is a property of a
  boolean, number, string or array, so there the read gives \<^verbatim>\<open>undefined\<close>.
\<close>

fun get_field :: "json \<Rightarrow> string \<Rightarrow> json" where
  "get_field (JObj ps) k = (case map_of ps k of None \<Rightarrow> JUndefined | Some v \<Rightarrow> v)"
| "get_field v k = JUndefined"

definition get_prop :: "json \<Rightarrow> string \<Rightarrow> error + json" where
  "get_prop v k = (if nullish v then Inl TypeError else Inr (get_field v k))"

text \<open>\<^verbatim>\<open>a || b\<close> with \<open>b\<close> a value that needs no evaluation.\<close>

definition js_or :: "json \<Rightarrow> json \<Rightarrow> json" where
  "js_or a b = (if truthy a then a else b)"

text \<open>\<^verbatim>\<open>typeof v === "object"\<close>: true of null, arrays and objects.\<close>

fun typeof_object :: "json \<Rightarrow> bool" where
  "typeof_object JNull = True"
| "typeof_object (JArr xs) = True"
| "typeof_object (JObj ps) = True"
| "typeof_object v = False"

fun Array_isArray :: "json \<Rightarrow> bool" where
  "Array_isArray (JArr xs) = True"
| "Array_isArray v = False"

text \<open>
  \<^verbatim>\<open>Object.values(v)\<close>: the property values of an object, the elements of an array, the
  one-character strings of a string, nothing for a boolean or a number, and a TypeError
  for \<^verbatim>\<open>null\<close> and \<^verbatim>\<open>undefined\<close>.
\<close>

fun Object_values :: "json \<Rightarrow> error + json list" where
  "Object_values JUndefined = Inl TypeError"
| "Object_values JNull = Inl TypeError"
| "Object_values (JBool b) = Inr []"
| "Object_values (JNum n) = Inr []"
| "Object_values (JStr s) = Inr (map (\<lambda>c. JStr [c]) s)"
| "Object_values (JArr xs) = Inr xs"
| "Object_values (JObj ps) = Inr (map snd ps)"

text \<open>The comparison \<^verbatim>\<open>a < b\<close> of two numbers: false as soon as one is NaN.\<close>

fun js_lt :: "jsnum \<Rightarrow> jsnum \<Rightarrow> bool" where
  "js_lt (Fin a) (Fin b) = (a < b)"
| "js_lt (Fin a) PosInf = True"
| "js_lt NegInf (Fin b) = True"
| "js_lt NegInf PosInf = True"
| "js_lt a b = False"

text \<open>The comparison \<^verbatim>\<open>a <= b\<close> of two numbers.\<close>

fun js_le :: "jsnum \<Rightarrow> jsnum \<Rightarrow> bool" where
  "js_le (Fin a) (Fin b) = (a \<le> b)"
| "js_le (Fin a) PosInf = True"
| "js_le (Fin a) NegInf = False"
| "js_le (Fin a) NaN = False"
| "js_le PosInf b = (b = PosInf)"
| "js_le NegInf b = (b \<noteq> NaN)"
| "js_le NaN b = False"

section \<open>Helpers and types of the page\<close>

text \<open>
  \<^verbatim>\<open>function safeNum(v: any, fallback = 0)\<close> returns \<open>v\<close> when it is a number and finite,
  the fallback otherwise.
\<close>

fun safeNum :: "json \<Rightarrow> jsnum \<Rightarrow> jsnum" where
  "safeNum (JNum (Fin r)) fallback = Fin r"
| "safeNum v fallback = fallback"

text \<open>
  \<^verbatim>\<open>type PriceInfo\<close>. The provenance fields are declared \<^verbatim>\<open>string\<close>, but they receive
  \<^verbatim>\<open>l.worldName || ""\<close> of an untyped listing, and \<^verbatim>\<open>lastUploadTime\<close> receives
  \<^verbatim>\<open>it.lastUploadTime\<close> as it is, so they hold arbitrary values.
\<close>

record PriceInfo =
  minAll :: jsnum
  minAllWorld :: json
  minNQ :: jsnum
  minNQWorld :: json
  minHQ :: jsnum
  minHQWorld :: json
  listingsFetched :: nat
  lastUploadTime :: json

section \<open>The price reduction of fetchCurrentPrices\<close>

text \<open>The six local variables of the loop over the listings of one entry.\<close>

record minima =
  loc_minAll :: jsnum
  loc_minAllW :: json
  loc_minNQ :: jsnum
  loc_minNQW :: json
  loc_minHQ :: jsnum
  loc_minHQW :: json

definition init_minima :: minima where
  "init_minima =
     \<lparr>loc_minAll = PosInf, loc_minAllW = JStr [],
      loc_minNQ = PosInf, loc_minNQW = JStr [],
      loc_minHQ = PosInf, loc_minHQW = JStr []\<rparr>"

text \<open>The body of \<^verbatim>\<open>for (const l of listings)\<close>.\<close>

definition listing_step :: "json \<Rightarrow> minima \<Rightarrow> error + minima" where
  "listing_step l st =
     bind_err (get_prop l ''pricePerUnit'') (\<lambda>p.
       let ppu = safeNum p (Fin 0) in
       if num_falsy ppu then Inr st
       else
         bind_err (get_prop l ''worldName'') (\<lambda>w.
           let wName = js_or w (JStr []);
               st1 = (if js_lt ppu (loc_minAll st)
                      then st\<lparr>loc_minAll := ppu, loc_minAllW := wName\<rparr> else st)
           in
           bind_err (get_prop l ''hq'') (\<lambda>h.
             if truthy h then
               (if js_lt ppu (loc_minHQ st1)
                then Inr (st1\<lparr>loc_minHQ := ppu, loc_minHQW := wName\<rparr>) else Inr st1)
             else
               (if js_lt ppu (loc_minNQ st1)
                then Inr (st1\<lparr>loc_minNQ := ppu, loc_minNQW := wName\<rparr>) else Inr st1))))"

fun scan_listings :: "json list \<Rightarrow> minima \<Rightarrow> error + minima" where
  "scan_listings [] st = Inr st"
| "scan_listings (l # ls) st = bind_err (listing_step l st) (scan_listings ls)"

text \<open>\<^verbatim>\<open>m === Infinity ? 0 : m\<close>\<close>

definition unset_to_zero :: "jsnum \<Rightarrow> jsnum" where
  "unset_to_zero m = (if m = PosInf then Fin 0 else m)"

text \<open>
  From the initialisation of the minima to the object given to \<^verbatim>\<open>nextMap.set\<close>, for the
  entry \<open>it\<close> and its array \<open>listings\<close>; \<^verbatim>\<open>it.lastUploadTime\<close> is read last.
\<close>

definition aggregate_listings :: "json \<Rightarrow> json list \<Rightarrow> error + PriceInfo" where
  "aggregate_listings it listings =
     bind_err (scan_listings listings init_minima) (\<lambda>st.
       bind_err (get_prop it ''lastUploadTime'') (\<lambda>t.
         Inr \<lparr>minAll = unset_to_zero (loc_minAll st), minAllWorld = loc_minAllW st,
              minNQ = unset_to_zero (loc_minNQ st), minNQWorld = loc_minNQW st,
              minHQ = unset_to_zero (loc_minHQ st), minHQWorld = loc_minHQW st,
              listingsFetched = length listings, lastUploadTime = t\<rparr>))"

text \<open>\<^verbatim>\<open>it.itemID || it.itemId || it.item_id\<close>, evaluated left to right.\<close>

definition entry_id :: "json \<Rightarrow> error + json" where
  "entry_id it =
     bind_err (get_prop it ''itemID'') (\<lambda>a.
       if truthy a then Inr a
       else bind_err (get_prop it ''itemId'') (\<lambda>b.
         if truthy b then Inr b else get_prop it ''item_id''))"

text \<open>\<^verbatim>\<open>Array.isArray(v) ? v : []\<close>\<close>

fun array_or_empty :: "json \<Rightarrow> json list" where
  "array_or_empty (JArr xs) = xs"
| "array_or_empty v = []"

text \<open>
  The body of \<^verbatim>\<open>for (const it of entries)\<close>: \<open>None\<close> when the entry is skipped by
  \<^verbatim>\<open>continue\<close>, otherwise the key and the value given to \<^verbatim>\<open>nextMap.set\<close>.
\<close>

definition entry_aggregate :: "json \<Rightarrow> error + (jsnum \<times> PriceInfo) option" where
  "entry_aggregate it =
     bind_err (entry_id it) (\<lambda>idv.
       let itemId = safeNum idv (Fin 0) in
       if num_falsy itemId then Inr None
       else
         bind_err (get_prop it ''listings'') (\<lambda>ls.
           let listings = array_or_empty ls in
           bind_err (aggregate_listings it listings) (\<lambda>info.
             Inr (Some (itemId, info)))))"

fun reduce_entries ::
  "json list \<Rightarrow> (jsnum \<rightharpoonup> PriceInfo) \<Rightarrow> error + (jsnum \<rightharpoonup> PriceInfo)" where
  "reduce_entries [] m = Inr m"
| "reduce_entries (it # its) m =
     bind_err (entry_aggregate it) (\<lambda>r.
       reduce_entries its (case r of None \<Rightarrow> m | Some (k, info) \<Rightarrow> m(k \<mapsto> info)))"

text \<open>The map \<^verbatim>\<open>nextMap\<close> that fetchCurrentPrices builds from the normalized entries.\<close>

definition fetchCurrentPrices_nextMap :: "json list \<Rightarrow> error + (jsnum \<rightharpoonup> PriceInfo)" where
  "fetchCurrentPrices_nextMap entries = reduce_entries entries Map.empty"

section \<open>The response normalizer\<close>

definition normalizeCurrentDataResponse :: "json \<Rightarrow> error + json list" where
  "normalizeCurrentDataResponse data =
     (if \<not> truthy data then Inr []
      else
        bind_err (get_prop data ''items'') (\<lambda>items.
          if truthy items then
            (if Array_isArray items then Inr (array_or_empty items)
             else bind_err (Object_values items) (\<lambda>vs. Inr (filter typeof_object vs)))
          else
            bind_err (get_prop data ''itemID'') (\<lambda>i.
              if truthy i then Inr [data]
              else bind_err (get_prop data ''listings'') (\<lambda>ls.
                if truthy ls then Inr [data] else Inr []))))"

section \<open>Page navigation\<close>

definition PAGE_SIZE :: nat where
  "PAGE_SIZE = 100"

text \<open>The part of the component state that navigation reads and writes.\<close>

record page_state =
  displayIds :: "int list"
  page :: int

text \<open>
  \<^verbatim>\<open>Math.max(1, Math.ceil(displayIds.length / PAGE_SIZE))\<close>. The length of an array is an
  integer below \<open>2^32\<close>, for which the rounded quotient has the ceiling of the exact one.
\<close>

definition totalPages :: "page_state \<Rightarrow> int" where
  "totalPages st = max 1 (ceiling (rat_of_nat (length (displayIds st)) / rat_of_nat PAGE_SIZE))"

text \<open>\<^verbatim>\<open>goToPage(p)\<close> for an integer \<open>p\<close>; scrolling the window is not part of the state.\<close>

definition goToPage :: "int \<Rightarrow> page_state \<Rightarrow> page_state" where
  "goToPage p st = st\<lparr>page := min (max 1 p) (totalPages st)\<rparr>"

section \<open>Vocabulary of the properties\<close>

text \<open>What the loop body reads from a listing that is neither null nor undefined.\<close>

definition listing_ppu :: "json \<Rightarrow> jsnum" where
  "listing_ppu l = safeNum (get_field l ''pricePerUnit'') (Fin 0)"

definition listing_world :: "json \<Rightarrow> json" where
  "listing_world l = js_or (get_field l ''worldName'') (JStr [])"

definition listing_hq :: "json \<Rightarrow> bool" where
  "listing_hq l = truthy (get_field l ''hq'')"

text \<open>A listing passes the price filter when \<^verbatim>\<open>!ppu\<close> is false.\<close>

definition qualifies :: "json \<Rightarrow> bool" where
  "qualifies l = (\<not> num_falsy (listing_ppu l))"

text \<open>The variable \<open>listings\<close> of an entry.\<close>

definition entry_listings :: "json \<Rightarrow> json list" where
  "entry_listings it = array_or_empty (get_field it ''listings'')"

text \<open>
  What the reducer needs of an entry for no property read to throw: the entry is neither
  null nor undefined, and neither is any element of its listings when they are an array.
  Every entry of the data model (an object with a sequence of listing objects) is of
  this kind, whatever its fields hold and whichever of them are missing.
\<close>

definition well_typed_entry :: "json \<Rightarrow> bool" where
  "well_typed_entry it = (\<not> nullish it \<and> list_all (\<lambda>l. \<not> nullish l) (entry_listings it))"

text \<open>A running minimum is unset (\<open>PosInf\<close>) or a finite nonzero price.\<close>

fun unset_or_price :: "jsnum \<Rightarrow> bool" where
  "unset_or_price (Fin r) = (r \<noteq> 0)"
| "unset_or_price PosInf = True"
| "unset_or_price NegInf = False"
| "unset_or_price NaN = False"

definition js_min :: "jsnum \<Rightarrow> jsnum \<Rightarrow> jsnum" where
  "js_min a b = (if js_lt b a then b else a)"

text \<open>The invariant of the loop over the listings.\<close>

definition minima_inv :: "minima \<Rightarrow> bool" where
  "minima_inv st =
     (unset_or_price (loc_minAll st) \<and> unset_or_price (loc_minNQ st)
      \<and> unset_or_price (loc_minHQ st)
      \<and> loc_minAll st = js_min (loc_minNQ st) (loc_minHQ st)
      \<and> (loc_minAll st = PosInf \<longrightarrow> loc_minAllW st = JStr [])
      \<and> (loc_minNQ st = PosInf \<longrightarrow> loc_minNQW st = JStr [])
      \<and> (loc_minHQ st = PosInf \<longrightarrow> loc_minHQW st = JStr []))"

text \<open>
  A running minimum \<open>m\<close> with provenance \<open>w\<close> over the listings \<open>ls\<close> that satisfy \<open>P\<close>:
  unset when there is none, otherwise the least price, with the provenance of the first
  listing that has it.
\<close>

definition tracked :: "(json \<Rightarrow> bool) \<Rightarrow> json list \<Rightarrow> jsnum \<Rightarrow> json \<Rightarrow> bool" where
  "tracked P ls m w =
     (if list_ex P ls
      then (\<exists>l. find (\<lambda>x. P x \<and> listing_ppu x = m) ls = Some l \<and> w = listing_world l)
           \<and> list_all (\<lambda>x. P x \<longrightarrow> js_le m (listing_ppu x)) ls
      else m = PosInf \<and> w = JStr [])"

text \<open>
  The listing that a minimum over the listings satisfying \<open>P\<close> should come from: the
  first one, in input order, that satisfies \<open>P\<close> and whose price is at most the price of
  every listing satisfying \<open>P\<close>.
\<close>

definition first_cheapest :: "(json \<Rightarrow> bool) \<Rightarrow> json list \<Rightarrow> json option" where
  "first_cheapest P ls =
     find (\<lambda>x. P x \<and> list_all (\<lambda>y. js_le (listing_ppu x) (listing_ppu y)) (filter P ls)) ls"

text \<open>
  A sample entry: two NQ listings at the same price 100 from A then B, two HQ listings at
  the same price 50 from C then D; and the aggregate the reducer stores for it.
\<close>

abbreviation (input) tie_entry :: json where
  "tie_entry \<equiv>
     JObj [(''itemID'', JNum (Fin 1)),
           (''listings'', JArr
              [JObj [(''pricePerUnit'', JNum (Fin 100)), (''hq'', JBool False), (''worldName'', JStr ''A'')],
               JObj [(''pricePerUnit'', JNum (Fin 100)), (''hq'', JBool False), (''worldName'', JStr ''B'')],
               JObj [(''pricePerUnit'', JNum (Fin 50)), (''hq'', JBool True), (''worldName'', JStr ''C'')],
               JObj [(''pricePerUnit'', JNum (Fin 50)), (''hq'', JBool True), (''worldName'', JStr ''D'')]])]"

abbreviation (input) tie_info :: PriceInfo where
  "tie_info \<equiv>
     \<lparr>minAll = Fin 50, minAllWorld = JStr ''C'', minNQ = Fin 100, minNQWorld = JStr ''A'',
      minHQ = Fin 50, minHQWorld = JStr ''C'', listingsFetched = 4,
      lastUploadTime = JUndefined\<rparr>"

section \<open>Basic facts\<close>

lemma bind_err_Inl [simp]: "bind_err (Inl e) f = Inl e"
  by (simp add: bind_err_def)

lemma bind_err_Inr [simp]: "bind_err (Inr v) f = f v"
  by (simp add: bind_err_def)

lemma bind_err_eq_Inr:
  "bind_err r f = Inr y \<longleftrightarrow> (\<exists>v. r = Inr v \<and> f v = Inr y)"
  by (cases r) simp_all

lemma get_prop_ok [simp]: "\<not> nullish v \<Longrightarrow> get_prop v k = Inr (get_field v k)"
  by (simp add: get_prop_def)

lemma get_prop_nullish [simp]: "nullish v \<Longrightarrow> get_prop v k = Inl TypeError"
  by (simp add: get_prop_def)

subsection \<open>One listing, then a list of them\<close>

lemma qualifies_Fin: "qualifies l \<Longrightarrow> \<exists>r. listing_ppu l = Fin r \<and> r \<noteq> 0"
  unfolding qualifies_def listing_ppu_def
  by (cases "(get_field l ''pricePerUnit'', Fin 0)" rule: safeNum.cases) auto

lemma listing_step_nullish: "nullish l \<Longrightarrow> listing_step l st = Inl TypeError"
  by (simp add: listing_step_def)

lemma listing_step_skip: "\<not> nullish l \<Longrightarrow> \<not> qualifies l \<Longrightarrow> listing_step l st = Inr st"
  by (simp add: listing_step_def qualifies_def listing_ppu_def)

lemma listing_step_ok:
  "\<not> nullish l \<Longrightarrow> \<exists>st'. listing_step l st = Inr st'"
  by (simp add: listing_step_def Let_def)

lemma listing_step_fields:
  assumes "listing_step l st = Inr st'"
  shows "\<not> nullish l"
    and "loc_minAll st' = (if qualifies l \<and> js_lt (listing_ppu l) (loc_minAll st) then listing_ppu l else loc_minAll st)"
    and "loc_minAllW st' = (if qualifies l \<and> js_lt (listing_ppu l) (loc_minAll st) then listing_world l else loc_minAllW st)"
    and "loc_minNQ st' = (if qualifies l \<and> \<not> listing_hq l \<and> js_lt (listing_ppu l) (loc_minNQ st) then listing_ppu l else loc_minNQ st)"
    and "loc_minNQW st' = (if qualifies l \<and> \<not> listing_hq l \<and> js_lt (listing_ppu l) (loc_minNQ st) then listing_world l else loc_minNQW st)"
    and "loc_minHQ st' = (if qualifies l \<and> listing_hq l \<and> js_lt (listing_ppu l) (loc_minHQ st) then listing_ppu l else loc_minHQ st)"
    and "loc_minHQW st' = (if qualifies l \<and> listing_hq l \<and> js_lt (listing_ppu l) (loc_minHQ st) then listing_world l else loc_minHQW st)"
proof -
  show n: "\<not> nullish l"
    using assms by (cases "nullish l") (simp_all add: listing_step_def)
  from assms n have e: "st' = (if \<not> qualifies l then st else
       (let st1 = (if js_lt (listing_ppu l) (loc_minAll st)
                      then st\<lparr>loc_minAll := listing_ppu l, loc_minAllW := listing_world l\<rparr> else st) in
       if listing_hq l then (if js_lt (listing_ppu l) (loc_minHQ st1)
                then (st1\<lparr>loc_minHQ := listing_ppu l, loc_minHQW := listing_world l\<rparr>) else st1)
             else
               (if js_lt (listing_ppu l) (loc_minNQ st1)
                then (st1\<lparr>loc_minNQ := listing_ppu l, loc_minNQW := listing_world l\<rparr>) else st1)))"
    by (auto simp add: listing_step_def Let_def qualifies_def listing_ppu_def listing_world_def listing_hq_def split: if_splits)
  show "loc_minAll st' = (if qualifies l \<and> js_lt (listing_ppu l) (loc_minAll st) then listing_ppu l else loc_minAll st)"
    by (simp add: e Let_def)
  show "loc_minAllW st' = (if qualifies l \<and> js_lt (listing_ppu l) (loc_minAll st) then listing_world l else loc_minAllW st)"
    by (simp add: e Let_def)
  show "loc_minNQ st' = (if qualifies l \<and> \<not> listing_hq l \<and> js_lt (listing_ppu l) (loc_minNQ st) then listing_ppu l else loc_minNQ st)"
    by (simp add: e Let_def)
  show "loc_minNQW st' = (if qualifies l \<and> \<not> listing_hq l \<and> js_lt (listing_ppu l) (loc_minNQ st) then listing_world l else loc_minNQW st)"
    by (simp add: e Let_def)
  show "loc_minHQ st' = (if qualifies l \<and> listing_hq l \<and> js_lt (listing_ppu l) (loc_minHQ st) then listing_ppu l else loc_minHQ st)"
    by (simp add: e Let_def)
  show "loc_minHQW st' = (if qualifies l \<and> listing_hq l \<and> js_lt (listing_ppu l) (loc_minHQ st) then listing_world l else loc_minHQW st)"
    by (simp add: e Let_def)
qed

lemma scan_listings_append:
  "scan_listings (xs @ ys) st = bind_err (scan_listings xs st) (scan_listings ys)"
proof (induction xs arbitrary: st)
  case Nil
  show ?case by simp
next
  case (Cons x xs)
  show ?case
    by (cases "listing_step x st") (simp_all add: Cons.IH)
qed

lemma scan_listings_total:
  "list_all (\<lambda>l. \<not> nullish l) ls \<Longrightarrow> \<exists>st'. scan_listings ls st = Inr st'"
proof (induction ls arbitrary: st)
  case Nil
  show ?case by simp
next
  case (Cons l ls)
  then obtain st1 where "listing_step l st = Inr st1"
    using listing_step_ok by fastforce
  with Cons show ?case by simp
qed

lemma scan_listings_nonnull:
  "scan_listings ls st = Inr st' \<Longrightarrow> list_all (\<lambda>l. \<not> nullish l) ls"
proof (induction ls arbitrary: st)
  case Nil
  show ?case by simp
next
  case (Cons l ls)
  then show ?case
    by (auto simp: bind_err_eq_Inr dest: listing_step_fields(1))
qed

subsection \<open>The invariant of the scan\<close>

lemma unset_or_price_cases:
  "unset_or_price m \<Longrightarrow> m = PosInf \<or> (\<exists>r. m = Fin r \<and> r \<noteq> 0)"
  by (cases m) simp_all

lemma init_minima_inv: "minima_inv init_minima"
  by (simp add: minima_inv_def init_minima_def js_min_def)

lemma listing_step_inv:
  assumes "listing_step l st = Inr st'" and "minima_inv st"
  shows "minima_inv st'"
proof (cases "qualifies l")
  case False
  with assms listing_step_fields(1)[OF assms(1)] show ?thesis
    by (simp add: listing_step_skip)
next
  case True
  then obtain r where r: "listing_ppu l = Fin r" "r \<noteq> 0"
    using qualifies_Fin by blast
  from assms(2) have u: "unset_or_price (loc_minAll st)" "unset_or_price (loc_minNQ st)"
      "unset_or_price (loc_minHQ st)"
    unfolding minima_inv_def by blast+
  note f = listing_step_fields[OF assms(1)]
  from unset_or_price_cases[OF u(1)] unset_or_price_cases[OF u(2)] unset_or_price_cases[OF u(3)]
  show ?thesis
    using assms(2) True r
    unfolding minima_inv_def f js_min_def
    by (elim disjE exE conjE) (auto split: if_splits)
qed

lemma scan_listings_inv:
  "scan_listings ls st = Inr st' \<Longrightarrow> minima_inv st \<Longrightarrow> minima_inv st'"
proof (induction ls arbitrary: st)
  case Nil
  then show ?case by simp
next
  case (Cons l ls)
  then show ?case
    by (auto simp: bind_err_eq_Inr dest: listing_step_inv)
qed

subsection \<open>What the scan computes\<close>

lemma find_snoc:
  "find Q (xs @ [x]) = (case find Q xs of Some y \<Rightarrow> Some y | None \<Rightarrow> (if Q x then Some x else None))"
  by (induction xs) simp_all

lemma tracked_Nil: "tracked P [] PosInf (JStr [])"
  by (simp add: tracked_def)

lemma tracked_snoc:
  assumes t: "tracked P ls m w" and q: "\<And>y. P y \<Longrightarrow> qualifies y"
  shows "tracked P (ls @ [x])
           (if P x \<and> js_lt (listing_ppu x) m then listing_ppu x else m)
           (if P x \<and> js_lt (listing_ppu x) m then listing_world x else w)"
proof (cases "P x")
  case False
  with t show ?thesis
    by (auto simp: tracked_def find_snoc split: if_splits)
next
  case px: True
  then obtain r where r: "listing_ppu x = Fin r" "r \<noteq> 0"
    using q qualifies_Fin by blast
  show ?thesis
  proof (cases "list_ex P ls")
    case False
    with t have m: "m = PosInf" "w = JStr []"
      by (simp_all add: tracked_def)
    from False have nf: "find (\<lambda>y. P y \<and> listing_ppu y = Fin r) ls = None"
      by (auto simp: find_None_iff list_ex_iff)
    from False have all: "list_all (\<lambda>y. P y \<longrightarrow> js_le (Fin r) (listing_ppu y)) ls"
      by (auto simp: list_all_iff list_ex_iff)
    show ?thesis
      using px r m nf all by (simp add: tracked_def find_snoc)
  next
    case ex: True
    with t obtain l where l: "find (\<lambda>y. P y \<and> listing_ppu y = m) ls = Some l"
        "w = listing_world l"
      and le: "list_all (\<lambda>y. P y \<longrightarrow> js_le m (listing_ppu y)) ls"
      by (auto simp: tracked_def)
    from l(1) have "P l \<and> listing_ppu l = m"
      by (auto simp: find_Some_iff)
    then obtain s where s: "m = Fin s"
      using q[of l] qualifies_Fin[of l] by auto
    have fin: "\<And>y. y \<in> set ls \<Longrightarrow> P y \<Longrightarrow> \<exists>u. listing_ppu y = Fin u \<and> s \<le> u"
    proof -
      fix y assume y: "y \<in> set ls" "P y"
      then obtain u where u: "listing_ppu y = Fin u"
        using q[of y] qualifies_Fin[of y] by auto
      from le y have "js_le m (listing_ppu y)"
        by (simp add: list_all_iff)
      with u s show "\<exists>u. listing_ppu y = Fin u \<and> s \<le> u"
        by simp
    qed
    show ?thesis
    proof (cases "r < s")
      case True
      have nf: "find (\<lambda>y. P y \<and> listing_ppu y = Fin r) ls = None"
        using fin True by (fastforce simp: find_None_iff)
      have all: "list_all (\<lambda>y. P y \<longrightarrow> js_le (Fin r) (listing_ppu y)) ls"
        using fin True by (fastforce simp: list_all_iff)
      show ?thesis
        using px r s True nf all by (simp add: tracked_def find_snoc)
    next
      case False
      then show ?thesis
        using px r s l le ex by (simp add: tracked_def find_snoc)
    qed
  qed
qed

lemma scan_listings_tracked:
  assumes "scan_listings ls init_minima = Inr st"
  shows "tracked qualifies ls (loc_minAll st) (loc_minAllW st)
       \<and> tracked (\<lambda>l. qualifies l \<and> \<not> listing_hq l) ls (loc_minNQ st) (loc_minNQW st)
       \<and> tracked (\<lambda>l. qualifies l \<and> listing_hq l) ls (loc_minHQ st) (loc_minHQW st)"
  using assms
proof (induction ls arbitrary: st rule: rev_induct)
  case Nil
  then show ?case
    by (auto simp: init_minima_def tracked_Nil)
next
  case (snoc x xs)
  from snoc.prems obtain st0 where st0: "scan_listings xs init_minima = Inr st0"
      and step: "listing_step x st0 = Inr st"
    by (auto simp: scan_listings_append bind_err_eq_Inr)
  note ih = snoc.IH[OF st0]
  note f = listing_step_fields[OF step]
  have a: "tracked qualifies (xs @ [x]) (loc_minAll st) (loc_minAllW st)"
    using tracked_snoc[of qualifies xs "loc_minAll st0" "loc_minAllW st0" x] ih
    by (simp add: f)
  have n: "tracked (\<lambda>l. qualifies l \<and> \<not> listing_hq l) (xs @ [x]) (loc_minNQ st) (loc_minNQW st)"
    using tracked_snoc[of "\<lambda>l. qualifies l \<and> \<not> listing_hq l" xs "loc_minNQ st0" "loc_minNQW st0" x] ih
    by (simp add: f)
  have h: "tracked (\<lambda>l. qualifies l \<and> listing_hq l) (xs @ [x]) (loc_minHQ st) (loc_minHQW st)"
    using tracked_snoc[of "\<lambda>l. qualifies l \<and> listing_hq l" xs "loc_minHQ st0" "loc_minHQW st0" x] ih
    by (simp add: f)
  from a n h show ?case by blast
qed

subsection \<open>One entry, then the sequence of entries\<close>

lemma safeNum_price:
  "\<not> num_falsy (safeNum v (Fin 0)) \<longleftrightarrow> (\<exists>r. v = JNum (Fin r) \<and> r \<noteq> 0)"
  by (cases "(v, Fin 0)" rule: safeNum.cases) auto

lemma entry_id_nullish: "nullish it \<Longrightarrow> entry_id it = Inl TypeError"
  by (simp add: entry_id_def)

lemma entry_id_total: "\<not> nullish it \<Longrightarrow> \<exists>v. entry_id it = Inr v"
  by (simp add: entry_id_def)

lemma entry_id_Inr: "entry_id it = Inr v \<Longrightarrow> \<not> nullish it"
  by (cases "nullish it") (simp_all add: entry_id_nullish)

lemma aggregate_listings_Inr:
  "aggregate_listings it ls = Inr info \<longleftrightarrow>
     \<not> nullish it \<and>
     (\<exists>st. scan_listings ls init_minima = Inr st \<and>
       info = \<lparr>minAll = unset_to_zero (loc_minAll st), minAllWorld = loc_minAllW st,
              minNQ = unset_to_zero (loc_minNQ st), minNQWorld = loc_minNQW st,
              minHQ = unset_to_zero (loc_minHQ st), minHQWorld = loc_minHQW st,
              listingsFetched = length ls, lastUploadTime = get_field it ''lastUploadTime''\<rparr>)"
  by (cases "nullish it") (auto simp: aggregate_listings_def bind_err_eq_Inr)

lemma entry_aggregate_Some:
  "entry_aggregate it = Inr (Some (k, info)) \<longleftrightarrow>
     (\<exists>r. entry_id it = Inr (JNum (Fin r)) \<and> r \<noteq> 0 \<and> k = Fin r
        \<and> aggregate_listings it (entry_listings it) = Inr info)"
proof (cases "nullish it")
  case True
  then show ?thesis
    by (simp add: entry_aggregate_def entry_id_nullish)
next
  case False
  then obtain v where v: "entry_id it = Inr v"
    using entry_id_total by blast
  show ?thesis
  proof (cases "num_falsy (safeNum v (Fin 0))")
    case True
    with v False show ?thesis
      using safeNum_price[of v] by (auto simp: entry_aggregate_def)
  next
    case nf: False
    then obtain r where r: "v = JNum (Fin r)" "r \<noteq> 0"
      using safeNum_price by blast
    with v False show ?thesis
      by (auto simp: entry_aggregate_def entry_listings_def bind_err_eq_Inr)
  qed
qed

lemma entry_aggregate_None:
  "entry_aggregate it = Inr None \<longleftrightarrow>
     (\<exists>v. entry_id it = Inr v \<and> (\<forall>r. v = JNum (Fin r) \<longrightarrow> r = 0))"
proof (cases "nullish it")
  case True
  then show ?thesis
    by (simp add: entry_aggregate_def entry_id_nullish)
next
  case False
  then obtain v where v: "entry_id it = Inr v"
    using entry_id_total by blast
  show ?thesis
  proof (cases "num_falsy (safeNum v (Fin 0))")
    case True
    with v False show ?thesis
      using safeNum_price[of v] by (auto simp: entry_aggregate_def)
  next
    case nf: False
    then obtain r where r: "v = JNum (Fin r)" "r \<noteq> 0"
      using safeNum_price by blast
    with v False show ?thesis
      by (auto simp: entry_aggregate_def Let_def bind_err_eq_Inr)
  qed
qed

lemma entry_aggregate_total:
  assumes "well_typed_entry it"
  shows "\<exists>r. entry_aggregate it = Inr r"
proof -
  from assms have n: "\<not> nullish it" and l: "list_all (\<lambda>l. \<not> nullish l) (entry_listings it)"
    by (simp_all add: well_typed_entry_def)
  from n obtain v where v: "entry_id it = Inr v"
    using entry_id_total by blast
  from l obtain st where st: "scan_listings (entry_listings it) init_minima = Inr st"
    using scan_listings_total by blast
  with n obtain info where "aggregate_listings it (entry_listings it) = Inr info"
    by (simp add: aggregate_listings_Inr)
  with v n show ?thesis
    by (simp add: entry_aggregate_def Let_def entry_listings_def)
qed

lemma reduce_entries_total:
  "list_all well_typed_entry es \<Longrightarrow> \<exists>m. reduce_entries es m0 = Inr m"
proof (induction es arbitrary: m0)
  case Nil
  show ?case by simp
next
  case (Cons it es)
  then obtain r where "entry_aggregate it = Inr r"
    using entry_aggregate_total by fastforce
  with Cons show ?case by simp
qed

lemma reduce_entries_lookup:
  "reduce_entries es m0 = Inr m \<Longrightarrow> m k = Some info \<Longrightarrow>
     m0 k = Some info \<or> (\<exists>it \<in> set es. entry_aggregate it = Inr (Some (k, info)))"
proof (induction es arbitrary: m0)
  case Nil
  then show ?case by simp
next
  case (Cons it es)
  from Cons.prems(1) obtain r where r: "entry_aggregate it = Inr r"
      and rest: "reduce_entries es (case r of None \<Rightarrow> m0 | Some (k, info) \<Rightarrow> m0(k \<mapsto> info)) = Inr m"
    by (auto simp: bind_err_eq_Inr)
  from Cons.IH[OF rest Cons.prems(2)] r show ?case
    by (cases r) (auto split: if_splits)
qed

lemma reduce_entries_dom:
  "reduce_entries es m0 = Inr m \<Longrightarrow>
     dom m = dom m0 \<union> {k. \<exists>it \<in> set es. \<exists>info. entry_aggregate it = Inr (Some (k, info))}"
proof (induction es arbitrary: m0)
  case Nil
  then show ?case by simp
next
  case (Cons it es)
  from Cons.prems(1) obtain r where r: "entry_aggregate it = Inr r"
      and rest: "reduce_entries es (case r of None \<Rightarrow> m0 | Some (k, info) \<Rightarrow> m0(k \<mapsto> info)) = Inr m"
    by (auto simp: bind_err_eq_Inr)
  show ?case
  proof (cases r)
    case None
    with Cons.IH[OF rest] r show ?thesis
      by auto
  next
    case (Some p)
    obtain k info where p: "p = (k, info)"
      by (cases p)
    from rest Some p have rest': "reduce_entries es (m0(k \<mapsto> info)) = Inr m"
      by simp
    from Cons.IH[of "m0(k \<mapsto> info)"] rest'
    have "dom m = insert k (dom m0) \<union>
        {k. \<exists>it \<in> set es. \<exists>info. entry_aggregate it = Inr (Some (k, info))}"
      by (simp del: fun_upd_apply)
    moreover have "{k'. \<exists>x \<in> set (it # es). \<exists>info. entry_aggregate x = Inr (Some (k', info))}
        = insert k {k. \<exists>it \<in> set es. \<exists>info. entry_aggregate it = Inr (Some (k, info))}"
      using r Some p by auto
    ultimately show ?thesis
      by auto
  qed
qed

lemma reduce_entries_all_ok:
  "reduce_entries es m0 = Inr m \<Longrightarrow> it \<in> set es \<Longrightarrow> \<exists>r. entry_aggregate it = Inr r"
proof (induction es arbitrary: m0)
  case Nil
  then show ?case by simp
next
  case (Cons a es)
  then show ?case
    by (auto simp: bind_err_eq_Inr)
qed

subsection \<open>The three minima of an aggregate\<close>

lemma unset_to_zero_price:
  "unset_or_price m \<Longrightarrow>
     \<exists>a. unset_to_zero m = Fin a \<and> (a = 0 \<longleftrightarrow> m = PosInf) \<and> (a \<noteq> 0 \<longrightarrow> m = Fin a)"
  by (cases m) (simp_all add: unset_to_zero_def)

lemma aggregate_listings_minima:
  assumes "aggregate_listings it ls = Inr info"
  shows "\<exists>a n h. minAll info = Fin a \<and> minNQ info = Fin n \<and> minHQ info = Fin h
           \<and> a = (if n = 0 then h else if h = 0 then n else min n h)
           \<and> (a = 0 \<longrightarrow> minAllWorld info = JStr [])
           \<and> (n = 0 \<longrightarrow> minNQWorld info = JStr [])
           \<and> (h = 0 \<longrightarrow> minHQWorld info = JStr [])"
proof -
  from assms obtain st where st: "scan_listings ls init_minima = Inr st"
    and info: "minAll info = unset_to_zero (loc_minAll st)" "minAllWorld info = loc_minAllW st"
      "minNQ info = unset_to_zero (loc_minNQ st)" "minNQWorld info = loc_minNQW st"
      "minHQ info = unset_to_zero (loc_minHQ st)" "minHQWorld info = loc_minHQW st"
    by (auto simp: aggregate_listings_Inr)
  have inv: "minima_inv st"
    using scan_listings_inv[OF st init_minima_inv] .
  then have u: "unset_or_price (loc_minAll st)" "unset_or_price (loc_minNQ st)"
      "unset_or_price (loc_minHQ st)"
    unfolding minima_inv_def by blast+
  from inv have rel: "loc_minAll st = js_min (loc_minNQ st) (loc_minHQ st)"
    and w: "loc_minAll st = PosInf \<longrightarrow> loc_minAllW st = JStr []"
      "loc_minNQ st = PosInf \<longrightarrow> loc_minNQW st = JStr []"
      "loc_minHQ st = PosInf \<longrightarrow> loc_minHQW st = JStr []"
    unfolding minima_inv_def by blast+
  from unset_to_zero_price[OF u(1)] obtain a where a: "unset_to_zero (loc_minAll st) = Fin a"
      "a = 0 \<longleftrightarrow> loc_minAll st = PosInf" "a \<noteq> 0 \<longrightarrow> loc_minAll st = Fin a"
    by blast
  from unset_to_zero_price[OF u(2)] obtain n where n: "unset_to_zero (loc_minNQ st) = Fin n"
      "n = 0 \<longleftrightarrow> loc_minNQ st = PosInf" "n \<noteq> 0 \<longrightarrow> loc_minNQ st = Fin n"
    by blast
  from unset_to_zero_price[OF u(3)] obtain h where h: "unset_to_zero (loc_minHQ st) = Fin h"
      "h = 0 \<longleftrightarrow> loc_minHQ st = PosInf" "h \<noteq> 0 \<longrightarrow> loc_minHQ st = Fin h"
    by blast
  have "a = (if n = 0 then h else if h = 0 then n else min n h)"
  proof (cases "n = 0")
    case n0: True
    with n have "loc_minNQ st = PosInf" by simp
    with rel u(3) have "loc_minAll st = loc_minHQ st"
      by (cases "loc_minHQ st") (simp_all add: js_min_def)
    with a(1) h(1) n0 show ?thesis by simp
  next
    case n1: False
    with n have nq: "loc_minNQ st = Fin n" by simp
    show ?thesis
    proof (cases "h = 0")
      case True
      with h have "loc_minHQ st = PosInf" by simp
      with rel nq have "loc_minAll st = Fin n" by (simp add: js_min_def)
      with a(1) n1 True show ?thesis by (simp add: unset_to_zero_def)
    next
      case False
      with h have "loc_minHQ st = Fin h" by simp
      with rel nq have "loc_minAll st = Fin (min n h)"
        by (simp add: js_min_def min_def)
      with a(1) n1 False show ?thesis by (simp add: unset_to_zero_def)
    qed
  qed
  with a n h w info show ?thesis
    by auto
qed

lemma entry_aggregate_minima:
  assumes "entry_aggregate it = Inr (Some (k, info))"
  shows "\<exists>a n h. minAll info = Fin a \<and> minNQ info = Fin n \<and> minHQ info = Fin h
           \<and> a = (if n = 0 then h else if h = 0 then n else min n h)
           \<and> (a = 0 \<longrightarrow> minAllWorld info = JStr [])
           \<and> (n = 0 \<longrightarrow> minNQWorld info = JStr [])
           \<and> (h = 0 \<longrightarrow> minHQWorld info = JStr [])"
proof -
  from assms have "aggregate_listings it (entry_listings it) = Inr info"
    by (auto simp: entry_aggregate_Some)
  then show ?thesis
    by (rule aggregate_listings_minima)
qed

subsection \<open>Listings that do not pass the price filter\<close>

lemmas run_defs =
  fetchCurrentPrices_nextMap_def entry_aggregate_def entry_id_def aggregate_listings_def
  listing_step_def init_minima_def unset_to_zero_def js_or_def get_prop_def Let_def

lemmas vocab_defs =
  qualifies_def listing_ppu_def listing_world_def listing_hq_def entry_listings_def

lemma scan_listings_skip:
  assumes "\<not> nullish l" and "\<not> qualifies l"
  shows "scan_listings (xs @ l # ys) st = scan_listings (xs @ ys) st"
proof (cases "scan_listings xs st")
  case (Inl e)
  then show ?thesis
    by (simp add: scan_listings_append)
next
  case (Inr st1)
  with assms show ?thesis
    by (simp add: scan_listings_append listing_step_skip)
qed

lemma scan_listings_all_skipped:
  "scan_listings ls st = Inr st' \<Longrightarrow> list_all (\<lambda>l. \<not> qualifies l) ls \<Longrightarrow> st' = st"
proof (induction ls arbitrary: st)
  case Nil
  then show ?case by simp
next
  case (Cons l ls)
  from Cons.prems(1) obtain st1 where s: "listing_step l st = Inr st1"
      and r: "scan_listings ls st1 = Inr st'"
    by (auto simp: bind_err_eq_Inr)
  from s Cons.prems(2) have "st1 = st"
    using listing_step_fields(1)[OF s] by (simp add: listing_step_skip)
  with Cons.IH[OF r] Cons.prems(2) show ?case
    by simp
qed

lemma tracked_first_cheapest:
  assumes t: "tracked P ls m w" and q: "\<And>y. P y \<Longrightarrow> qualifies y"
  shows "(unset_to_zero m, w) =
           (case first_cheapest P ls of None \<Rightarrow> (Fin 0, JStr [])
            | Some l \<Rightarrow> (listing_ppu l, listing_world l))"
proof (cases "list_ex P ls")
  case False
  with t have m: "m = PosInf" "w = JStr []"
    by (simp_all add: tracked_def)
  from False have "first_cheapest P ls = None"
    by (auto simp: first_cheapest_def find_None_iff list_ex_iff)
  with m show ?thesis
    by (simp add: unset_to_zero_def)
next
  case True
  with t obtain l0 where l0: "find (\<lambda>x. P x \<and> listing_ppu x = m) ls = Some l0"
      "w = listing_world l0"
    and le: "list_all (\<lambda>y. P y \<longrightarrow> js_le m (listing_ppu y)) ls"
    by (auto simp: tracked_def)
  from l0(1) have p0: "P l0" "listing_ppu l0 = m" "l0 \<in> set ls"
    by (auto simp: find_Some_iff)
  then obtain s where s: "m = Fin s"
    using q[of l0] qualifies_Fin[of l0] by auto
  have same: "(P x \<and> list_all (\<lambda>y. js_le (listing_ppu x) (listing_ppu y)) (filter P ls))
      \<longleftrightarrow> (P x \<and> listing_ppu x = m)" if x: "x \<in> set ls" for x
  proof (cases "P x")
    case False
    then show ?thesis by simp
  next
    case px: True
    then obtain r where r: "listing_ppu x = Fin r"
      using q[of x] qualifies_Fin[of x] by auto
    from le x px have mx: "js_le m (listing_ppu x)"
      by (simp add: list_all_iff)
    show ?thesis
    proof
      assume a: "P x \<and> list_all (\<lambda>y. js_le (listing_ppu x) (listing_ppu y)) (filter P ls)"
      with p0 have "js_le (listing_ppu x) m"
        by (auto simp: list_all_iff)
      with mx r s have "r = s"
        by simp
      with r s px show "P x \<and> listing_ppu x = m"
        by simp
    next
      assume b: "P x \<and> listing_ppu x = m"
      with le show "P x \<and> list_all (\<lambda>y. js_le (listing_ppu x) (listing_ppu y)) (filter P ls)"
        by (simp add: list_all_iff)
    qed
  qed
  have "first_cheapest P ls = find (\<lambda>x. P x \<and> listing_ppu x = m) ls"
    unfolding first_cheapest_def
    by (rule find_cong) (simp_all add: same)
  with l0 p0 s show ?thesis
    by (simp add: unset_to_zero_def)
qed

subsection \<open>Where the reducer throws\<close>

text \<open>
  An entry that is \<^verbatim>\<open>null\<close>, or a \<^verbatim>\<open>null\<close> element in the listings of an entry that is not
  skipped, makes the property read throw; fetchCurrentPrices catches it and sets no map.
\<close>

lemma null_entry_raises: "fetchCurrentPrices_nextMap [JNull] = Inl TypeError"
  by (simp add: run_defs)

lemma null_listing_raises:
  "fetchCurrentPrices_nextMap [JObj [(''itemID'', JNum (Fin 7)), (''listings'', JArr [JNull])]]
     = Inl TypeError"
  by (simp add: run_defs)

subsection \<open>The normalizer, by the kind of its argument\<close>

lemma get_field_defined: "get_field v k \<noteq> JUndefined \<Longrightarrow> \<exists>ps. v = JObj ps"
  by (cases v) simp_all

lemma normalize_not_object:
  "(\<forall>ps. data \<noteq> JObj ps) \<Longrightarrow> normalizeCurrentDataResponse data = Inr []"
  by (cases data) (simp_all add: normalizeCurrentDataResponse_def get_prop_def)

lemma normalize_object:
  "normalizeCurrentDataResponse (JObj ps) =
     (let items = get_field (JObj ps) ''items'' in
      if truthy items then
        (case items of JArr xs \<Rightarrow> Inr xs
         | JObj qs \<Rightarrow> Inr (filter typeof_object (map snd qs))
         | _ \<Rightarrow> Inr [])
      else if truthy (get_field (JObj ps) ''itemID'') \<or> truthy (get_field (JObj ps) ''listings'')
        then Inr [JObj ps] else Inr [])"
proof -
  have s: "filter typeof_object (map (\<lambda>c. JStr [c]) str) = []" for str
    by (induction str) simp_all
  show ?thesis
    by (cases "get_field (JObj ps) ''items''")
      (simp_all add: normalizeCurrentDataResponse_def get_prop_def Let_def s del: get_field.simps)
qed

subsection \<open>Pages\<close>

lemma neg_div_100: "- (- (m::int) div 100) = (m + 99) div 100"
  by linarith

lemma ceiling_div_100: "ceiling (rat_of_nat n / 100) = (int n + 99) div 100"
proof -
  have "ceiling (rat_of_nat n / 100) = ceiling (of_int (int n) / (of_int 100 :: rat))"
    by simp
  also have "\<dots> = - (- int n div 100)"
    by (rule ceiling_divide_eq_div)
  finally show ?thesis
    by (simp add: neg_div_100)
qed

lemma totalPages_div:
  "totalPages st = max 1 ((int (length (displayIds st)) + 99) div 100)"
  by (simp add: totalPages_def PAGE_SIZE_def ceiling_div_100)

section \<open>Properties\<close>

text \<open>
  C1, as stated: an entry's identifier is a key of the output mapping if and only if it
  is present and a finite number. It fails for the identifier 0, which is present and
  finite: the entry \<^verbatim>\<open>{itemID: 0, listings: []}\<close> is skipped, since \<^verbatim>\<open>!itemId\<close> holds of 0.
\<close>

theorem zero_identifier_is_skipped:
  "get_field (JObj [(''itemID'', JNum (Fin 0)), (''listings'', JArr [])]) ''itemID'' = JNum (Fin 0)
   \<and> fetchCurrentPrices_nextMap [JObj [(''itemID'', JNum (Fin 0)), (''listings'', JArr [])]]
       = Inr Map.empty"
  by (simp add: run_defs)

text \<open>
  C1, amended. The identifier of an entry is the value of
  \<^verbatim>\<open>it.itemID || it.itemId || it.item_id\<close>, the first truthy one of the three fields.
  Whenever the reducer returns a mapping, its keys are exactly the finite nonzero numbers
  that are the identifier of some entry of the sequence, and an entry of the sequence is
  skipped exactly when its identifier is not a finite nonzero number (it is missing, not
  a number, not finite, or zero).
\<close>

theorem keys_are_finite_nonzero_identifiers:
  assumes "fetchCurrentPrices_nextMap entries = Inr m"
  shows "(k \<in> dom m \<longleftrightarrow>
            (\<exists>it \<in> set entries. \<exists>r. r \<noteq> 0 \<and> k = Fin r \<and> entry_id it = Inr (JNum (Fin r))))
       \<and> (\<forall>it \<in> set entries.
            entry_aggregate it = Inr None \<longleftrightarrow>
              \<not> (\<exists>r. r \<noteq> 0 \<and> entry_id it = Inr (JNum (Fin r))))"
proof -
  from assms have red: "reduce_entries entries Map.empty = Inr m"
    by (simp add: fetchCurrentPrices_nextMap_def)
  have ok: "\<And>it. it \<in> set entries \<Longrightarrow> \<exists>res. entry_aggregate it = Inr res"
    using reduce_entries_all_ok[OF red] .
  have skip: "\<And>it. it \<in> set entries \<Longrightarrow>
      entry_aggregate it = Inr None \<longleftrightarrow> \<not> (\<exists>r. r \<noteq> 0 \<and> entry_id it = Inr (JNum (Fin r)))"
  proof -
    fix it assume "it \<in> set entries"
    then obtain res where res: "entry_aggregate it = Inr res"
      using ok by blast
    show "entry_aggregate it = Inr None \<longleftrightarrow> \<not> (\<exists>r. r \<noteq> 0 \<and> entry_id it = Inr (JNum (Fin r)))"
    proof (cases res)
      case None
      with res show ?thesis
        by (auto simp: entry_aggregate_None)
    next
      case (Some p)
      obtain k' info where "p = (k', info)"
        by (cases p)
      with res Some have s: "entry_aggregate it = Inr (Some (k', info))"
        by simp
      then have "entry_aggregate it \<noteq> Inr None"
        by simp
      moreover from s have "\<exists>r. r \<noteq> 0 \<and> entry_id it = Inr (JNum (Fin r))"
        unfolding entry_aggregate_Some by blast
      ultimately show ?thesis
        by blast
    qed
  qed
  have "k \<in> dom m \<longleftrightarrow> (\<exists>it \<in> set entries. \<exists>info. entry_aggregate it = Inr (Some (k, info)))"
    using reduce_entries_dom[OF red] by simp
  also have "\<dots> \<longleftrightarrow> (\<exists>it \<in> set entries. \<exists>r. r \<noteq> 0 \<and> k = Fin r \<and> entry_id it = Inr (JNum (Fin r)))"
  proof
    assume "\<exists>it \<in> set entries. \<exists>info. entry_aggregate it = Inr (Some (k, info))"
    then show "\<exists>it \<in> set entries. \<exists>r. r \<noteq> 0 \<and> k = Fin r \<and> entry_id it = Inr (JNum (Fin r))"
      by (auto simp: entry_aggregate_Some)
  next
    assume "\<exists>it \<in> set entries. \<exists>r. r \<noteq> 0 \<and> k = Fin r \<and> entry_id it = Inr (JNum (Fin r))"
    then obtain it r where it: "it \<in> set entries" and r: "r \<noteq> 0" "k = Fin r"
        "entry_id it = Inr (JNum (Fin r))"
      by blast
    from ok[OF it] obtain res where res: "entry_aggregate it = Inr res"
      by blast
    from skip[OF it] r have "entry_aggregate it \<noteq> Inr None"
      by blast
    with res obtain k' info where s: "entry_aggregate it = Inr (Some (k', info))"
      by (cases res) auto
    with r have "k' = k"
      by (auto simp: entry_aggregate_Some)
    with s it show "\<exists>it \<in> set entries. \<exists>info. entry_aggregate it = Inr (Some (k, info))"
      by blast
  qed
  finally show ?thesis
    using skip by blast
qed

theorem keys_are_finite_nonzero_identifiers_witness:
  "fetchCurrentPrices_nextMap
     [JObj [(''itemId'', JNum (Fin 5))], JObj [(''itemID'', JNum (Fin 0))],
      JObj [(''itemID'', JStr ''7'')]]
     = Inr (Map.empty(Fin 5 \<mapsto>
         \<lparr>minAll = Fin 0, minAllWorld = JStr [], minNQ = Fin 0, minNQWorld = JStr [],
          minHQ = Fin 0, minHQWorld = JStr [], listingsFetched = 0,
          lastUploadTime = JUndefined\<rparr>))
   \<and> Fin 5 \<in> dom (Map.empty(Fin 5 \<mapsto>
         \<lparr>minAll = Fin 0, minAllWorld = JStr [], minNQ = Fin 0, minNQWorld = JStr [],
          minHQ = Fin 0, minHQWorld = JStr [], listingsFetched = 0,
          lastUploadTime = JUndefined\<rparr>))
   \<and> entry_aggregate (JObj [(''itemID'', JNum (Fin 0))]) = Inr None
   \<and> entry_aggregate (JObj [(''itemID'', JStr ''7'')]) = Inr None"
proof -
  have h: "fetchCurrentPrices_nextMap
     [JObj [(''itemId'', JNum (Fin 5))], JObj [(''itemID'', JNum (Fin 0))],
      JObj [(''itemID'', JStr ''7'')]]
     = Inr (Map.empty(Fin 5 \<mapsto>
         \<lparr>minAll = Fin 0, minAllWorld = JStr [], minNQ = Fin 0, minNQWorld = JStr [],
          minHQ = Fin 0, minHQWorld = JStr [], listingsFetched = 0,
          lastUploadTime = JUndefined\<rparr>))"
    by (simp add: run_defs)
  from keys_are_finite_nonzero_identifiers[OF h, of "Fin 5"] h show ?thesis
    by (simp add: entry_id_def get_prop_def)
qed

text \<open>
  C2. A listing whose price does not pass the filter (\<^verbatim>\<open>safeNum\<close> of it is zero: the price
  is zero, not a number, or not finite) is counted in listingsFetched and changes nothing
  else: the aggregate of a listing sequence that contains it is the aggregate of the
  sequence without it, with the count of the full sequence.
\<close>

theorem malformed_price_only_counts:
  assumes "\<not> nullish l" and "\<not> qualifies l"
    and "aggregate_listings it (xs @ ys) = Inr b"
  shows "aggregate_listings it (xs @ l # ys)
           = Inr (b\<lparr>listingsFetched := length (xs @ l # ys)\<rparr>)
       \<and> listingsFetched b = length (xs @ ys)"
  using assms
  by (auto simp: aggregate_listings_Inr scan_listings_skip)

theorem malformed_price_only_counts_witness:
  "\<not> nullish (JObj [(''pricePerUnit'', JNum (Fin 0)), (''worldName'', JStr ''B'')])
   \<and> \<not> qualifies (JObj [(''pricePerUnit'', JNum (Fin 0)), (''worldName'', JStr ''B'')])
   \<and> aggregate_listings (JObj [])
        ([JObj [(''pricePerUnit'', JNum (Fin 100)), (''worldName'', JStr ''A'')]] @ [])
      = Inr \<lparr>minAll = Fin 100, minAllWorld = JStr ''A'', minNQ = Fin 100,
             minNQWorld = JStr ''A'', minHQ = Fin 0, minHQWorld = JStr [],
             listingsFetched = 1, lastUploadTime = JUndefined\<rparr>
   \<and> aggregate_listings (JObj [])
        ([JObj [(''pricePerUnit'', JNum (Fin 100)), (''worldName'', JStr ''A'')]]
         @ JObj [(''pricePerUnit'', JNum (Fin 0)), (''worldName'', JStr ''B'')] # [])
      = Inr \<lparr>minAll = Fin 100, minAllWorld = JStr ''A'', minNQ = Fin 100,
             minNQWorld = JStr ''A'', minHQ = Fin 0, minHQWorld = JStr [],
             listingsFetched = 2, lastUploadTime = JUndefined\<rparr>"
proof -
  have a: "\<not> nullish (JObj [(''pricePerUnit'', JNum (Fin 0)), (''worldName'', JStr ''B'')])"
    by simp
  have b: "\<not> qualifies (JObj [(''pricePerUnit'', JNum (Fin 0)), (''worldName'', JStr ''B'')])"
    by (simp add: vocab_defs)
  have c: "aggregate_listings (JObj [])
        ([JObj [(''pricePerUnit'', JNum (Fin 100)), (''worldName'', JStr ''A'')]] @ [])
      = Inr \<lparr>minAll = Fin 100, minAllWorld = JStr ''A'', minNQ = Fin 100,
             minNQWorld = JStr ''A'', minHQ = Fin 0, minHQWorld = JStr [],
             listingsFetched = 1, lastUploadTime = JUndefined\<rparr>"
    by (simp add: run_defs)
  from malformed_price_only_counts[OF a b c] a b c show ?thesis
    by simp
qed

text \<open>
  C3. For every entry that the reducer stores and each of the three minima (overall: the
  listings that pass the price filter; NQ: those of them not marked hq; HQ: those marked
  hq): when no listing counts for the minimum, it is zero with the empty provenance;
  otherwise the minimum is the least price among the listings that count, and the
  provenance is that of the first listing, in input order, that has this price. On equal
  prices the first listing seen wins.
\<close>

theorem first_seen_listing_wins:
  assumes "entry_aggregate it = Inr (Some (k, info))"
  shows "(minAll info, minAllWorld info) =
           (case first_cheapest qualifies (entry_listings it) of
              None \<Rightarrow> (Fin 0, JStr [])
            | Some l \<Rightarrow> (listing_ppu l, listing_world l))
       \<and> (minNQ info, minNQWorld info) =
           (case first_cheapest (\<lambda>l. qualifies l \<and> \<not> listing_hq l) (entry_listings it) of
              None \<Rightarrow> (Fin 0, JStr [])
            | Some l \<Rightarrow> (listing_ppu l, listing_world l))
       \<and> (minHQ info, minHQWorld info) =
           (case first_cheapest (\<lambda>l. qualifies l \<and> listing_hq l) (entry_listings it) of
              None \<Rightarrow> (Fin 0, JStr [])
            | Some l \<Rightarrow> (listing_ppu l, listing_world l))"
proof -
  from assms have "aggregate_listings it (entry_listings it) = Inr info"
    by (auto simp: entry_aggregate_Some)
  then obtain st where st: "scan_listings (entry_listings it) init_minima = Inr st"
    and info: "minAll info = unset_to_zero (loc_minAll st)" "minAllWorld info = loc_minAllW st"
      "minNQ info = unset_to_zero (loc_minNQ st)" "minNQWorld info = loc_minNQW st"
      "minHQ info = unset_to_zero (loc_minHQ st)" "minHQWorld info = loc_minHQW st"
    by (auto simp: aggregate_listings_Inr)
  note t = scan_listings_tracked[OF st]
  from t have ta: "tracked qualifies (entry_listings it) (loc_minAll st) (loc_minAllW st)"
    by blast
  from t have tn: "tracked (\<lambda>l. qualifies l \<and> \<not> listing_hq l) (entry_listings it)
      (loc_minNQ st) (loc_minNQW st)"
    by blast
  from t have th: "tracked (\<lambda>l. qualifies l \<and> listing_hq l) (entry_listings it)
      (loc_minHQ st) (loc_minHQW st)"
    by blast
  have a: "(minAll info, minAllWorld info) =
           (case first_cheapest qualifies (entry_listings it) of
              None \<Rightarrow> (Fin 0, JStr [])
            | Some l \<Rightarrow> (listing_ppu l, listing_world l))"
    unfolding info by (rule tracked_first_cheapest[OF ta]) simp
  have n: "(minNQ info, minNQWorld info) =
           (case first_cheapest (\<lambda>l. qualifies l \<and> \<not> listing_hq l) (entry_listings it) of
              None \<Rightarrow> (Fin 0, JStr [])
            | Some l \<Rightarrow> (listing_ppu l, listing_world l))"
    unfolding info by (rule tracked_first_cheapest[OF tn]) simp
  have h: "(minHQ info, minHQWorld info) =
           (case first_cheapest (\<lambda>l. qualifies l \<and> listing_hq l) (entry_listings it) of
              None \<Rightarrow> (Fin 0, JStr [])
            | Some l \<Rightarrow> (listing_ppu l, listing_world l))"
    unfolding info by (rule tracked_first_cheapest[OF th]) simp
  from a n h show ?thesis
    by blast
qed

theorem first_seen_listing_wins_witness:
  "entry_aggregate tie_entry = Inr (Some (Fin 1, tie_info))
   \<and> first_cheapest qualifies (entry_listings tie_entry)
       = Some (JObj [(''pricePerUnit'', JNum (Fin 50)), (''hq'', JBool True), (''worldName'', JStr ''C'')])
   \<and> first_cheapest (\<lambda>l. qualifies l \<and> \<not> listing_hq l) (entry_listings tie_entry)
       = Some (JObj [(''pricePerUnit'', JNum (Fin 100)), (''hq'', JBool False), (''worldName'', JStr ''A'')])
   \<and> first_cheapest (\<lambda>l. qualifies l \<and> listing_hq l) (entry_listings tie_entry)
       = Some (JObj [(''pricePerUnit'', JNum (Fin 50)), (''hq'', JBool True), (''worldName'', JStr ''C'')])
   \<and> (minAll tie_info, minAllWorld tie_info) = (Fin 50, JStr ''C'')
   \<and> (minNQ tie_info, minNQWorld tie_info) = (Fin 100, JStr ''A'')
   \<and> (minHQ tie_info, minHQWorld tie_info) = (Fin 50, JStr ''C'')
   \<and> entry_aggregate
        (JObj [(''itemID'', JNum (Fin 2)),
           (''listings'', JArr
              [JObj [(''pricePerUnit'', JNum (Fin 50)), (''hq'', JBool False), (''worldName'', JStr ''X'')],
               JObj [(''pricePerUnit'', JNum (Fin 80)), (''hq'', JBool True), (''worldName'', JStr ''Y'')],
               JObj [(''pricePerUnit'', JNum (Fin 80)), (''hq'', JBool True), (''worldName'', JStr ''Z'')]])])
      = Inr (Some (Fin 2,
          \<lparr>minAll = Fin 50, minAllWorld = JStr ''X'', minNQ = Fin 50, minNQWorld = JStr ''X'',
           minHQ = Fin 80, minHQWorld = JStr ''Y'', listingsFetched = 3,
           lastUploadTime = JUndefined\<rparr>))
   \<and> first_cheapest (\<lambda>l. qualifies l \<and> listing_hq l)
        (entry_listings
          (JObj [(''itemID'', JNum (Fin 2)),
           (''listings'', JArr
              [JObj [(''pricePerUnit'', JNum (Fin 50)), (''hq'', JBool False), (''worldName'', JStr ''X'')],
               JObj [(''pricePerUnit'', JNum (Fin 80)), (''hq'', JBool True), (''worldName'', JStr ''Y'')],
               JObj [(''pricePerUnit'', JNum (Fin 80)), (''hq'', JBool True), (''worldName'', JStr ''Z'')]])]))
      = Some (JObj [(''pricePerUnit'', JNum (Fin 80)), (''hq'', JBool True), (''worldName'', JStr ''Y'')])"
proof -
  have h: "entry_aggregate tie_entry = Inr (Some (Fin 1, tie_info))"
    by (simp add: run_defs)
  have g: "entry_aggregate
        (JObj [(''itemID'', JNum (Fin 2)),
           (''listings'', JArr
              [JObj [(''pricePerUnit'', JNum (Fin 50)), (''hq'', JBool False), (''worldName'', JStr ''X'')],
               JObj [(''pricePerUnit'', JNum (Fin 80)), (''hq'', JBool True), (''worldName'', JStr ''Y'')],
               JObj [(''pricePerUnit'', JNum (Fin 80)), (''hq'', JBool True), (''worldName'', JStr ''Z'')]])])
      = Inr (Some (Fin 2,
          \<lparr>minAll = Fin 50, minAllWorld = JStr ''X'', minNQ = Fin 50, minNQWorld = JStr ''X'',
           minHQ = Fin 80, minHQWorld = JStr ''Y'', listingsFetched = 3,
           lastUploadTime = JUndefined\<rparr>))"
    by (simp add: run_defs)
  from first_seen_listing_wins[OF h] first_seen_listing_wins[OF g] h g show ?thesis
    by (simp add: vocab_defs first_cheapest_def)
qed

text \<open>
  C4. For every entry that the reducer stores, the aggregate satisfies: when the overall
  minimum and the NQ minimum are both nonzero, the overall minimum is at most the NQ
  minimum; when the overall minimum and the HQ minimum are both nonzero, the overall
  minimum is at most the HQ minimum.
\<close>

theorem overall_min_below_quality_minima:
  assumes "entry_aggregate it = Inr (Some (k, info))"
  shows "(minAll info \<noteq> Fin 0 \<and> minNQ info \<noteq> Fin 0 \<longrightarrow> js_le (minAll info) (minNQ info))
       \<and> (minAll info \<noteq> Fin 0 \<and> minHQ info \<noteq> Fin 0 \<longrightarrow> js_le (minAll info) (minHQ info))"
proof -
  from entry_aggregate_minima[OF assms] obtain a n h where
    f: "minAll info = Fin a" "minNQ info = Fin n" "minHQ info = Fin h"
    and r: "a = (if n = 0 then h else if h = 0 then n else min n h)"
    by blast
  from r show ?thesis
    by (auto simp: f)
qed

theorem overall_min_below_quality_minima_witness:
  "entry_aggregate tie_entry = Inr (Some (Fin 1, tie_info))
   \<and> minAll tie_info \<noteq> Fin 0 \<and> minNQ tie_info \<noteq> Fin 0 \<and> minHQ tie_info \<noteq> Fin 0
   \<and> js_le (minAll tie_info) (minNQ tie_info) \<and> js_le (minAll tie_info) (minHQ tie_info)"
proof -
  have h: "entry_aggregate tie_entry = Inr (Some (Fin 1, tie_info))"
    by (simp add: run_defs)
  from overall_min_below_quality_minima[OF h] h show ?thesis
    by simp
qed

text \<open>
  C5. For every entry that the reducer stores: listingsFetched is the length of the
  listing sequence as read from the entry, whether or not the listings pass the price
  filter, and lastUploadTime is the entry's field as it is. When no listing passes the
  filter, the three minima are zero with empty provenance; when the listing sequence is
  empty, the count is zero as well.
\<close>

theorem listings_observed_is_raw_length:
  assumes "entry_aggregate it = Inr (Some (k, info))"
  shows "listingsFetched info = length (entry_listings it)
       \<and> lastUploadTime info = get_field it ''lastUploadTime''
       \<and> (list_all (\<lambda>l. \<not> qualifies l) (entry_listings it) \<longrightarrow>
            minAll info = Fin 0 \<and> minAllWorld info = JStr []
            \<and> minNQ info = Fin 0 \<and> minNQWorld info = JStr []
            \<and> minHQ info = Fin 0 \<and> minHQWorld info = JStr [])
       \<and> (entry_listings it = [] \<longrightarrow>
            info = \<lparr>minAll = Fin 0, minAllWorld = JStr [], minNQ = Fin 0,
                    minNQWorld = JStr [], minHQ = Fin 0, minHQWorld = JStr [],
                    listingsFetched = 0, lastUploadTime = get_field it ''lastUploadTime''\<rparr>)"
proof -
  from assms have "aggregate_listings it (entry_listings it) = Inr info"
    by (auto simp: entry_aggregate_Some)
  then obtain st where st: "scan_listings (entry_listings it) init_minima = Inr st"
    and info: "info = \<lparr>minAll = unset_to_zero (loc_minAll st), minAllWorld = loc_minAllW st,
              minNQ = unset_to_zero (loc_minNQ st), minNQWorld = loc_minNQW st,
              minHQ = unset_to_zero (loc_minHQ st), minHQWorld = loc_minHQW st,
              listingsFetched = length (entry_listings it),
              lastUploadTime = get_field it ''lastUploadTime''\<rparr>"
    by (auto simp: aggregate_listings_Inr)
  have a: "listingsFetched info = length (entry_listings it)"
    by (simp add: info)
  have b: "lastUploadTime info = get_field it ''lastUploadTime''"
    by (simp add: info)
  have c: "minAll info = Fin 0 \<and> minAllWorld info = JStr []
            \<and> minNQ info = Fin 0 \<and> minNQWorld info = JStr []
            \<and> minHQ info = Fin 0 \<and> minHQWorld info = JStr []"
    if "list_all (\<lambda>l. \<not> qualifies l) (entry_listings it)"
  proof -
    from scan_listings_all_skipped[OF st that] have "st = init_minima" .
    then show ?thesis
      by (simp add: info init_minima_def unset_to_zero_def)
  qed
  have d: "info = \<lparr>minAll = Fin 0, minAllWorld = JStr [], minNQ = Fin 0,
                    minNQWorld = JStr [], minHQ = Fin 0, minHQWorld = JStr [],
                    listingsFetched = 0, lastUploadTime = get_field it ''lastUploadTime''\<rparr>"
    if "entry_listings it = []"
  proof -
    from st that have "st = init_minima" by simp
    with that show ?thesis
      by (simp add: info init_minima_def unset_to_zero_def)
  qed
  from a b c d show ?thesis
    by blast
qed

theorem listings_observed_is_raw_length_witness:
  "entry_aggregate
     (JObj [(''itemID'', JNum (Fin 2)), (''lastUploadTime'', JNum (Fin 1700000000000)),
            (''listings'', JArr [JObj [(''pricePerUnit'', JNum (Fin 0)), (''worldName'', JStr ''A'')],
                                 JObj [(''pricePerUnit'', JStr ''12''), (''worldName'', JStr ''B'')]])])
     = Inr (Some (Fin 2,
         \<lparr>minAll = Fin 0, minAllWorld = JStr [], minNQ = Fin 0, minNQWorld = JStr [],
          minHQ = Fin 0, minHQWorld = JStr [], listingsFetched = 2,
          lastUploadTime = JNum (Fin 1700000000000)\<rparr>))
   \<and> list_all (\<lambda>l. \<not> qualifies l)
       (entry_listings
         (JObj [(''itemID'', JNum (Fin 2)), (''lastUploadTime'', JNum (Fin 1700000000000)),
            (''listings'', JArr [JObj [(''pricePerUnit'', JNum (Fin 0)), (''worldName'', JStr ''A'')],
                                 JObj [(''pricePerUnit'', JStr ''12''), (''worldName'', JStr ''B'')]])]))
   \<and> entry_aggregate (JObj [(''itemID'', JNum (Fin 3)), (''listings'', JArr [])])
     = Inr (Some (Fin 3,
         \<lparr>minAll = Fin 0, minAllWorld = JStr [], minNQ = Fin 0, minNQWorld = JStr [],
          minHQ = Fin 0, minHQWorld = JStr [], listingsFetched = 0,
          lastUploadTime = JUndefined\<rparr>))
   \<and> entry_listings (JObj [(''itemID'', JNum (Fin 3)), (''listings'', JArr [])]) = []"
proof -
  have h: "entry_aggregate
     (JObj [(''itemID'', JNum (Fin 2)), (''lastUploadTime'', JNum (Fin 1700000000000)),
            (''listings'', JArr [JObj [(''pricePerUnit'', JNum (Fin 0)), (''worldName'', JStr ''A'')],
                                 JObj [(''pricePerUnit'', JStr ''12''), (''worldName'', JStr ''B'')]])])
     = Inr (Some (Fin 2,
         \<lparr>minAll = Fin 0, minAllWorld = JStr [], minNQ = Fin 0, minNQWorld = JStr [],
          minHQ = Fin 0, minHQWorld = JStr [], listingsFetched = 2,
          lastUploadTime = JNum (Fin 1700000000000)\<rparr>))"
    by (simp add: run_defs)
  have g: "entry_aggregate (JObj [(''itemID'', JNum (Fin 3)), (''listings'', JArr [])])
     = Inr (Some (Fin 3,
         \<lparr>minAll = Fin 0, minAllWorld = JStr [], minNQ = Fin 0, minNQWorld = JStr [],
          minHQ = Fin 0, minHQWorld = JStr [], listingsFetched = 0,
          lastUploadTime = JUndefined\<rparr>))"
    by (simp add: run_defs)
  from listings_observed_is_raw_length[OF h] listings_observed_is_raw_length[OF g] h g
  show ?thesis
    by (simp add: vocab_defs)
qed

text \<open>
  C6, as stated: a bare object carrying an itemID or listings field is returned as a
  one-element sequence. It fails for \<^verbatim>\<open>{itemID: 0}\<close>: the normalizer tests the fields for
  truthiness, 0 is falsy, and the result is the empty sequence.
\<close>

theorem falsy_itemID_object_is_dropped:
  "get_field (JObj [(''itemID'', JNum (Fin 0))]) ''itemID'' = JNum (Fin 0)
   \<and> normalizeCurrentDataResponse (JObj [(''itemID'', JNum (Fin 0))]) = Inr []"
  by (simp add: normalizeCurrentDataResponse_def get_prop_def)

text \<open>
  C6, amended. The normalizer never throws. When the items field is an array it returns
  that array; when it is an object it returns the object's values that are of type
  object, which are all the values when each is an entry object. When the items field is
  missing or falsy and the itemID field or the listings field is truthy, it returns the
  one-element sequence of the response itself. In every other case (a null, undefined
  or otherwise falsy response; an items field that is truthy but neither array nor
  object; itemID and listings both missing or falsy) it returns the empty sequence.
\<close>

theorem normalizer_shapes:
  "(\<exists>es. normalizeCurrentDataResponse data = Inr es)
   \<and> (get_field data ''items'' = JArr xs \<longrightarrow> normalizeCurrentDataResponse data = Inr xs)
   \<and> (get_field data ''items'' = JObj ps \<longrightarrow>
        normalizeCurrentDataResponse data = Inr (filter typeof_object (map snd ps)))
   \<and> (get_field data ''items'' = JObj ps \<and> list_all typeof_object (map snd ps) \<longrightarrow>
        normalizeCurrentDataResponse data = Inr (map snd ps))
   \<and> (\<not> truthy (get_field data ''items'')
        \<and> (truthy (get_field data ''itemID'') \<or> truthy (get_field data ''listings'')) \<longrightarrow>
        normalizeCurrentDataResponse data = Inr [data])
   \<and> (\<not> Array_isArray (get_field data ''items'') \<and> (\<forall>qs. get_field data ''items'' \<noteq> JObj qs)
        \<and> (truthy (get_field data ''items'')
            \<or> (\<not> truthy (get_field data ''itemID'') \<and> \<not> truthy (get_field data ''listings''))) \<longrightarrow>
        normalizeCurrentDataResponse data = Inr [])"
proof (cases "\<exists>ds. data = JObj ds")
  case False
  then have n: "normalizeCurrentDataResponse data = Inr []"
    by (simp add: normalize_not_object)
  from False have u: "get_field data k = JUndefined" for k
    using get_field_defined by blast
  show ?thesis
    by (simp add: n u)
next
  case True
  then obtain ds where d: "data = JObj ds"
    by blast
  have f: "list_all typeof_object ys \<Longrightarrow> filter typeof_object ys = ys" for ys
    by (induction ys) simp_all
  show ?thesis
    unfolding d normalize_object
    by (cases "get_field (JObj ds) ''items''")
      (auto simp: Let_def f simp del: get_field.simps)
qed

theorem normalizer_shapes_witness:
  "normalizeCurrentDataResponse
     (JObj [(''items'', JObj [(''100'', JObj [(''itemID'', JNum (Fin 100))]),
                              (''200'', JObj [(''itemID'', JNum (Fin 200))])])])
     = Inr [JObj [(''itemID'', JNum (Fin 100))], JObj [(''itemID'', JNum (Fin 200))]]
   \<and> normalizeCurrentDataResponse
     (JObj [(''items'', JArr [JObj [(''itemID'', JNum (Fin 100))]])])
     = Inr [JObj [(''itemID'', JNum (Fin 100))]]
   \<and> normalizeCurrentDataResponse (JObj [(''itemID'', JNum (Fin 100)), (''listings'', JArr [])])
     = Inr [JObj [(''itemID'', JNum (Fin 100)), (''listings'', JArr [])]]
   \<and> normalizeCurrentDataResponse JNull = Inr []
   \<and> normalizeCurrentDataResponse (JObj [(''items'', JNull)]) = Inr []
   \<and> normalizeCurrentDataResponse (JObj [(''items'', JStr ''ab'')]) = Inr []"
  using
    normalizer_shapes[of "JObj [(''items'', JObj [(''100'', JObj [(''itemID'', JNum (Fin 100))]),
                              (''200'', JObj [(''itemID'', JNum (Fin 200))])])]" "[]"
        "[(''100'', JObj [(''itemID'', JNum (Fin 100))]), (''200'', JObj [(''itemID'', JNum (Fin 200))])]"]
    normalizer_shapes[of "JObj [(''items'', JArr [JObj [(''itemID'', JNum (Fin 100))]])]"
        "[JObj [(''itemID'', JNum (Fin 100))]]" "[]"]
    normalizer_shapes[of "JObj [(''itemID'', JNum (Fin 100)), (''listings'', JArr [])]" "[]" "[]"]
    normalizer_shapes[of JNull "[]" "[]"]
    normalizer_shapes[of "JObj [(''items'', JNull)]" "[]" "[]"]
    normalizer_shapes[of "JObj [(''items'', JStr ''ab'')]" "[]" "[]"]
  by simp

text \<open>
  C7. On a sequence of entries each of which is neither null nor undefined, and whose
  listings, when they are an array, contain neither null nor undefined, the reducer
  returns a mapping (it does not throw, whatever the identifier, price, quality and
  server fields hold). In every aggregate of the mapping the three minima are finite
  numbers, and a minimum that is zero has the empty provenance.
\<close>

theorem reducer_total_on_well_typed_entries:
  assumes "list_all well_typed_entry entries"
  shows "\<exists>m. fetchCurrentPrices_nextMap entries = Inr m
           \<and> (\<forall>k info. m k = Some info \<longrightarrow>
                (\<exists>a n h. minAll info = Fin a \<and> minNQ info = Fin n \<and> minHQ info = Fin h
                   \<and> (a = 0 \<longrightarrow> minAllWorld info = JStr [])
                   \<and> (n = 0 \<longrightarrow> minNQWorld info = JStr [])
                   \<and> (h = 0 \<longrightarrow> minHQWorld info = JStr [])))"
proof -
  from reduce_entries_total[OF assms] obtain m where m: "reduce_entries entries Map.empty = Inr m"
    by blast
  have "\<exists>a n h. minAll info = Fin a \<and> minNQ info = Fin n \<and> minHQ info = Fin h
                   \<and> (a = 0 \<longrightarrow> minAllWorld info = JStr [])
                   \<and> (n = 0 \<longrightarrow> minNQWorld info = JStr [])
                   \<and> (h = 0 \<longrightarrow> minHQWorld info = JStr [])"
    if "m k = Some info" for k info
  proof -
    from reduce_entries_lookup[OF m that] obtain it where
      "entry_aggregate it = Inr (Some (k, info))"
      by auto
    from entry_aggregate_minima[OF this] show ?thesis
      by blast
  qed
  with m show ?thesis
    by (auto simp: fetchCurrentPrices_nextMap_def)
qed

theorem reducer_total_on_well_typed_entries_witness:
  "list_all well_typed_entry
     [JObj [(''itemID'', JStr ''abc'')],
      JNum (Fin 4),
      JObj [(''item_id'', JNum (Fin 3)),
            (''listings'', JArr [JObj [(''pricePerUnit'', JStr ''x''), (''hq'', JNum (Fin 1)),
                                       (''worldName'', JNum (Fin 5))],
                                 JStr ''junk''])],
      JObj [(''itemID'', JNum PosInf), (''listings'', JNum (Fin 7))]]
   \<and> fetchCurrentPrices_nextMap
     [JObj [(''itemID'', JStr ''abc'')],
      JNum (Fin 4),
      JObj [(''item_id'', JNum (Fin 3)),
            (''listings'', JArr [JObj [(''pricePerUnit'', JStr ''x''), (''hq'', JNum (Fin 1)),
                                       (''worldName'', JNum (Fin 5))],
                                 JStr ''junk''])],
      JObj [(''itemID'', JNum PosInf), (''listings'', JNum (Fin 7))]]
     = Inr (Map.empty(Fin 3 \<mapsto>
         \<lparr>minAll = Fin 0, minAllWorld = JStr [], minNQ = Fin 0, minNQWorld = JStr [],
          minHQ = Fin 0, minHQWorld = JStr [], listingsFetched = 2,
          lastUploadTime = JUndefined\<rparr>))"
proof -
  have h: "list_all well_typed_entry
     [JObj [(''itemID'', JStr ''abc'')],
      JNum (Fin 4),
      JObj [(''item_id'', JNum (Fin 3)),
            (''listings'', JArr [JObj [(''pricePerUnit'', JStr ''x''), (''hq'', JNum (Fin 1)),
                                       (''worldName'', JNum (Fin 5))],
                                 JStr ''junk''])],
      JObj [(''itemID'', JNum PosInf), (''listings'', JNum (Fin 7))]]"
    by (simp add: well_typed_entry_def entry_listings_def)
  from reducer_total_on_well_typed_entries[OF h] h show ?thesis
    by (simp add: run_defs numeral_2_eq_2)
qed

text \<open>
  C8. For every entry that the reducer stores, the three minima are finite numbers and
  the overall minimum is the minimum of the NQ and HQ minima with a zero read as unset:
  zero when both are zero, the nonzero one when exactly one is nonzero, the smaller when
  both are nonzero.
\<close>

theorem overall_min_is_min_of_quality_minima:
  assumes "entry_aggregate it = Inr (Some (k, info))"
  shows "\<exists>a n h. minAll info = Fin a \<and> minNQ info = Fin n \<and> minHQ info = Fin h
           \<and> (n = 0 \<and> h = 0 \<longrightarrow> a = 0)
           \<and> (n \<noteq> 0 \<and> h = 0 \<longrightarrow> a = n)
           \<and> (n = 0 \<and> h \<noteq> 0 \<longrightarrow> a = h)
           \<and> (n \<noteq> 0 \<and> h \<noteq> 0 \<longrightarrow> a = min n h)"
proof -
  from entry_aggregate_minima[OF assms] obtain a n h where
    f: "minAll info = Fin a" "minNQ info = Fin n" "minHQ info = Fin h"
    and r: "a = (if n = 0 then h else if h = 0 then n else min n h)"
    by blast
  from r have "(n = 0 \<and> h = 0 \<longrightarrow> a = 0) \<and> (n \<noteq> 0 \<and> h = 0 \<longrightarrow> a = n)
      \<and> (n = 0 \<and> h \<noteq> 0 \<longrightarrow> a = h) \<and> (n \<noteq> 0 \<and> h \<noteq> 0 \<longrightarrow> a = min n h)"
    by simp
  with f show ?thesis
    by blast
qed

theorem overall_min_is_min_of_quality_minima_witness:
  "entry_aggregate tie_entry = Inr (Some (Fin 1, tie_info))
   \<and> minAll tie_info = Fin 50 \<and> minNQ tie_info = Fin 100 \<and> minHQ tie_info = Fin 50
   \<and> (50::rat) = min 100 50"
proof -
  have h: "entry_aggregate tie_entry = Inr (Some (Fin 1, tie_info))"
    by (simp add: run_defs)
  from overall_min_is_min_of_quality_minima[OF h] h show ?thesis
    by simp
qed

text \<open>
  C9. There is a well-typed input for which a minimum is nonzero and its provenance is
  the empty string: an entry whose only listing has the price 100 and no worldName.
\<close>

theorem empty_provenance_with_nonzero_minimum:
  "well_typed_entry
     (JObj [(''itemID'', JNum (Fin 1)),
            (''listings'', JArr [JObj [(''pricePerUnit'', JNum (Fin 100)), (''hq'', JBool False)]])])
   \<and> entry_aggregate
     (JObj [(''itemID'', JNum (Fin 1)),
            (''listings'', JArr [JObj [(''pricePerUnit'', JNum (Fin 100)), (''hq'', JBool False)]])])
   = Inr (Some (Fin 1,
       \<lparr>minAll = Fin 100, minAllWorld = JStr [], minNQ = Fin 100, minNQWorld = JStr [],
        minHQ = Fin 0, minHQWorld = JStr [], listingsFetched = 1,
        lastUploadTime = JUndefined\<rparr>))"
  by (simp add: run_defs well_typed_entry_def entry_listings_def)

text \<open>
  C10. For every integer argument \<open>p\<close> and every display list, goToPage sets the page to
  \<open>min (max 1 p) totalPages\<close>, where totalPages is \<open>max 1 (ceiling (length / 100))\<close>; the
  page it sets lies between 1 and totalPages inclusive, and the display list, hence
  totalPages, is unchanged.
\<close>

theorem goToPage_clamps:
  "page (goToPage p st) = min (max 1 p) (totalPages st)
   \<and> totalPages st = max 1 ((int (length (displayIds st)) + 99) div 100)
   \<and> 1 \<le> page (goToPage p st)
   \<and> page (goToPage p st) \<le> totalPages st
   \<and> totalPages (goToPage p st) = totalPages st"
proof -
  have t: "1 \<le> totalPages st"
    by (simp add: totalPages_def)
  have a: "page (goToPage p st) = min (max 1 p) (totalPages st)"
    by (simp add: goToPage_def)
  have b: "totalPages (goToPage p st) = totalPages st"
    by (simp add: goToPage_def totalPages_def)
  from a t have c: "1 \<le> page (goToPage p st)" and d: "page (goToPage p st) \<le> totalPages st"
    by simp_all
  from a b c d totalPages_div show ?thesis
    by blast
qed

end
